theory Spec2Isabelle
  imports Main "HOL-Library.AList" "HOL-Library.Sublist"
begin

text \<open>
  The process supervision core of MyMinecraftManager: \<open>ProcessManager.js\<close> (the Command
  Gate and the Process Supervisor) and the supervisor-based \<open>server.js\<close> (the Instance
  Registry, the Log Buffer, the Lifecycle Orchestrator and the Reconciliation Loop).

  The globals of the program are the fields of one state record, which every function takes
  and returns. A function that throws returns \<open>Inl\<close> of the error. What the program cannot
  decide itself (the file system, \<open>spawn\<close>, signals, whether a child exits) is read from an
  environment record. Node runs one handler at a time, so each function is one step on the
  state; \<open>startServer\<close> is taken as one step across its single \<open>await\<close>, and \<open>stopServer\<close>
  and \<open>restartServer\<close> as one step from the call to the settlement of their promise.
\<close>

section \<open>Strings\<close>

text \<open>
  JavaScript strings are modelled as \<^typ>\<open>string\<close>. Only the ASCII range is modelled:
  \<open>toLowerCase\<close> maps \<open>A\<close>..\<open>Z\<close> to \<open>a\<close>..\<open>z\<close> and leaves every other character alone,
  and the white space that \<open>trim\<close> removes is tab, line feed, vertical tab, form feed,
  carriage return and space.
\<close>

definition lower_char :: "char \<Rightarrow> char" where
  "lower_char c =
     (let n = (of_char c :: nat) in if 65 \<le> n \<and> n \<le> 90 then char_of (n + 32) else c)"

definition toLowerCase :: "string \<Rightarrow> string" where
  "toLowerCase s = map lower_char s"

definition is_space :: "char \<Rightarrow> bool" where
  "is_space c = ((of_char c :: nat) \<in> {9, 10, 11, 12, 13, 32})"

definition trim :: "string \<Rightarrow> string" where
  "trim s = rev (dropWhile is_space (rev (dropWhile is_space s)))"

text \<open>\<open>xs.join(sep)\<close> on an array of strings.\<close>

fun join :: "string \<Rightarrow> string list \<Rightarrow> string" where
  "join sep [] = []"
| "join sep [x] = x"
| "join sep (x # y # ys) = x @ sep @ join sep (y # ys)"

text \<open>
  \<open>const [first, ...rest] = s.split(' ')\<close>: the pieces between single separator
  characters; there is always a first piece. \<open>cur\<close> holds the current piece, reversed.
\<close>

fun split_on :: "char \<Rightarrow> string \<Rightarrow> string \<Rightarrow> string \<times> string list" where
  "split_on sep [] cur = (rev cur, [])"
| "split_on sep (c # cs) cur =
     (if c = sep then (rev cur, (let (x, xs) = split_on sep cs [] in x # xs))
      else split_on sep cs (c # cur))"

text \<open>
  \<open>text.split(/\r?\n/)\<close>: a line ends at a line feed, and a carriage return right before
  that line feed belongs to the separator.
\<close>

fun strip_cr :: "string \<Rightarrow> string" where
  "strip_cr [] = []"
| "strip_cr (c # cs) = (if c = CHR 0x0D then cs else c # cs)"

fun split_lines :: "string \<Rightarrow> string \<Rightarrow> string list" where
  "split_lines [] cur = [rev cur]"
| "split_lines (c # cs) cur =
     (if c = CHR 0x0A then rev (strip_cr cur) # split_lines cs [] else split_lines cs (c # cur))"

section \<open>Command Gate (ProcessManager.isCommandWithArgsDisabled)\<close>

text \<open>
  An entry of \<open>disabled_commands.json\<close>: \<open>{command, args}\<close>, where \<open>args\<close> may be absent.
\<close>

record entry =
  entry_command :: string
  entry_args :: "string list option"

text \<open>The \<open>for\<close> loop over the indices of \<open>entry.args\<close>.\<close>

function args_loop :: "string list \<Rightarrow> string list \<Rightarrow> nat \<Rightarrow> bool" where
  "args_loop eargs argsLower i =
     (if i < length eargs
      then (if toLowerCase (eargs ! i) \<noteq> argsLower ! i then False
            else args_loop eargs argsLower (i + 1))
      else True)"
  by pat_completeness auto
termination
  by (relation "measure (\<lambda>(eargs, argsLower, i). length eargs - i)") auto

declare args_loop.simps [simp del]

text \<open>The callback given to \<open>disabledCommands.some\<close>.\<close>

definition entry_disables :: "string \<Rightarrow> string list \<Rightarrow> entry \<Rightarrow> bool" where
  "entry_disables cmdLower argsLower e =
     (if toLowerCase (entry_command e) \<noteq> cmdLower then False
      else case entry_args e of
        None \<Rightarrow> True
      | Some eargs \<Rightarrow>
          if length eargs = 0 then True
          else if length eargs > length argsLower then False
          else args_loop eargs argsLower 0)"

definition isCommandWithArgsDisabled :: "entry list \<Rightarrow> string \<Rightarrow> string list \<Rightarrow> bool" where
  "isCommandWithArgsDisabled disabledCommands cmd args =
     (let cmdLower = toLowerCase cmd;
          argsLower = map toLowerCase args
      in list_ex (entry_disables cmdLower argsLower) disabledCommands)"

section \<open>Numbers in messages\<close>

text \<open>A number inside a template literal: its decimal digits.\<close>

function show_nat :: "nat \<Rightarrow> string" where
  "show_nat n =
     (if n < 10 then [char_of (48 + n)] else show_nat (n div 10) @ [char_of (48 + n mod 10)])"
  by pat_completeness auto
termination
  by (relation "measure (\<lambda>n. n)") auto

declare show_nat.simps [simp del]

definition show_int :: "int \<Rightarrow> string" where
  "show_int i = (if i < 0 then CHR ''-'' # show_nat (nat (- i)) else show_nat (nat i))"

section \<open>Data model\<close>

text \<open>
  An entry of the \<open>instances\<close> object of \<open>server.js\<close>, as the register route builds it:
  \<open>{name, workingDir, command, status, pid}\<close>. \<open>pid\<close> is a number or \<open>null\<close> (\<open>None\<close>).
\<close>

record inst =
  name :: string
  workingDir :: string
  command :: string
  status :: string
  pid :: "int option"

text \<open>
  The \<open>instances\<close> object maps names to entries. A JavaScript object keeps its keys
  distinct and in insertion order: an association list updated with \<^const>\<open>AList.update\<close>
  (an assignment \<open>instances[k] = v\<close>) and \<^const>\<open>AList.delete\<close> (\<open>delete instances[k]\<close>).
  A lookup \<open>instances[k]\<close> is \<^const>\<open>map_of\<close>: only the object's own keys are modelled,
  not the names every JavaScript object inherits (\<open>toString\<close>, \<open>constructor\<close>).
\<close>

type_synonym registry = "(string \<times> inst) list"

text \<open>
  A value of \<open>pm.processes\<close>. \<open>info_proc\<close> says whether the record holds a \<open>proc\<close>
  (the ChildProcess object); \<open>info_pid\<close> is \<open>None\<close> for \<open>null\<close> and for \<open>undefined\<close>.
  The \<open>cpu\<close> and \<open>memory\<close> fields, which only \<open>updateStats\<close> writes, are left out.
\<close>

record procInfo =
  info_id :: nat
  info_command :: string
  info_args :: "string list"
  info_proc :: bool
  info_pid :: "int option"
  info_errors :: "string list"

datatype signal = SIGTERM | SIGKILL

text \<open>The calls made to the operating system, in the order they are made.\<close>

datatype os_call =
    Spawn string "string list" "string option"
  | StdinWrite int string
  | ProcKill int signal
  | GroupKill int signal
  | AppendFile string string
  | LegacyKill string

text \<open>What is sent to the push channel (\<open>io.emit\<close>, \<open>io.to(name).emit\<close>, \<open>socket.emit\<close>).\<close>

datatype emit =
    InstancesStatus registry
  | InstancesList registry
  | StatusUpdate string string
  | Log string string
  | ActionResponse bool string string

text \<open>What is thrown: an \<open>Error\<close> with its message, or the \<open>ReferenceError\<close> of reading an
  identifier that is not declared.\<close>

datatype error = Error string | ReferenceError string

text \<open>What \<open>child_process.spawn\<close> does: it returns a ChildProcess whose \<open>pid\<close> may be
  undefined, or it throws.\<close>

datatype spawn_result = Spawned "int option" | SpawnThrows string

text \<open>
  The answers of the world outside the program, which the functions below take as a
  parameter: the file system, \<open>spawn\<close>, the zero-signal probe \<open>process.kill(pid, 0)\<close>
  (\<open>isPidRunning\<close>: it did not throw), whether a write to a child's stdin throws,
  whether the child's \<open>exit\<close> event comes before the timer of \<open>stopServer\<close> fires, whether
  \<open>process.kill(-pid, "SIGTERM")\<close> throws, and the clock.
\<close>

record env =
  pathExists :: "string \<Rightarrow> bool"
  path_join :: "string \<Rightarrow> string \<Rightarrow> string"
  spawn :: "string \<Rightarrow> string list \<Rightarrow> string option \<Rightarrow> spawn_result"
  isPidRunning :: "int \<Rightarrow> bool"
  stdin_write_throws :: "int \<Rightarrow> string option"
  exits_in_time :: "int \<Rightarrow> bool"
  group_kill_throws :: "int \<Rightarrow> string option"
  timestamp :: string

text \<open>
  The program's state: the globals of \<open>server.js\<close> (\<open>instances\<close>, \<open>instanceLogs\<close>), the
  fields of the ProcessManager \<open>pm\<close> (\<open>processes\<close>, \<open>nextId\<close>, \<open>disabledCommands\<close>,
  \<open>logDir\<close>), the contents of \<open>instances.json\<close> (\<open>disk\<close>) with the number of times it
  was written (\<open>saves\<close>), and the logs of what was emitted and of the calls to the
  operating system.
\<close>

record state =
  instances :: registry
  instanceLogs :: "(string \<times> string list) list"
  processes :: "(nat \<times> procInfo) list"
  nextId :: nat
  disabledCommands :: "entry list"
  logDir :: string
  disk :: registry
  saves :: nat
  emitted :: "emit list"
  os_calls :: "os_call list"

text \<open>JavaScript truthiness of a pid: \<open>null\<close>, \<open>undefined\<close> and \<open>0\<close> are falsy.\<close>

definition truthy :: "int option \<Rightarrow> bool" where
  "truthy p = (case p of None \<Rightarrow> False | Some n \<Rightarrow> n \<noteq> 0)"

definition saveInstances :: "state \<Rightarrow> state" where
  "saveInstances s = s\<lparr>disk := instances s, saves := saves s + 1\<rparr>"

definition emit :: "emit \<Rightarrow> state \<Rightarrow> state" where
  "emit ev s = s\<lparr>emitted := emitted s @ [ev]\<rparr>"

definition os_call :: "os_call \<Rightarrow> state \<Rightarrow> state" where
  "os_call c s = s\<lparr>os_calls := os_calls s @ [c]\<rparr>"

section \<open>Process Supervisor (ProcessManager)\<close>

text \<open>\<open>command.replace(/[<>:"\/\\|?*\x00-\x1F]/g, "_")\<close>\<close>

definition safe_char :: "char \<Rightarrow> char" where
  "safe_char c =
     (if c \<in> {CHR 0x3C, CHR 0x3E, CHR 0x3A, CHR 0x22, CHR 0x2F, CHR 0x5C, CHR 0x7C,
               CHR 0x3F, CHR 0x2A} \<or> (of_char c :: nat) < 32
      then CHR ''_'' else c)"

text \<open>
  \<open>appendError(command, errorMsg, procInfo)\<close>. Every caller passes the record stored in
  \<open>processes\<close> under an id it knows, so the record is named here by that id; the push
  onto \<open>procInfo.errors\<close> is an update of the stored record.
\<close>

definition appendError :: "env \<Rightarrow> string \<Rightarrow> string \<Rightarrow> nat \<Rightarrow> state \<Rightarrow> state" where
  "appendError e cmd errorMsg i s =
     (let fullMsg = ''['' @ timestamp e @ ''] '' @ errorMsg @ [CHR 0x0A];
          procs =
            (case map_of (processes s) i of
               None \<Rightarrow> processes s
             | Some info \<Rightarrow>
                 AList.update i (info\<lparr>info_errors := info_errors info @ [errorMsg]\<rparr>) (processes s));
          safeCommand = map safe_char cmd;
          logPath = path_join e (logDir s) (safeCommand @ ''_log.txt'')
      in os_call (AppendFile logPath fullMsg) (s\<lparr>processes := procs\<rparr>))"

definition disabled_message :: "string \<Rightarrow> string list \<Rightarrow> string" where
  "disabled_message cmd args =
     ''Command '' @ [CHR 0x22] @ cmd @ [CHR 0x22] @ '' with args ['' @ join '', '' args
       @ ''] is disabled and cannot be run.''"

definition new_info :: "nat \<Rightarrow> string \<Rightarrow> string list \<Rightarrow> bool \<Rightarrow> int option \<Rightarrow> string list \<Rightarrow> procInfo" where
  "new_info i cmd args has_proc p errs =
     \<lparr>info_id = i, info_command = cmd, info_args = args, info_proc = has_proc,
      info_pid = p, info_errors = errs\<rparr>"

text \<open>\<open>const id = this.nextId++; this.processes.set(id, info)\<close>\<close>

definition add_process :: "(nat \<Rightarrow> procInfo) \<Rightarrow> state \<Rightarrow> nat \<times> state" where
  "add_process mk s =
     (let i = nextId s
      in (i, s\<lparr>nextId := i + 1, processes := AList.update i (mk i) (processes s)\<rparr>))"

definition spawnProcess :: "env \<Rightarrow> string \<Rightarrow> string list \<Rightarrow> string \<Rightarrow> state \<Rightarrow> nat \<times> state" where
  "spawnProcess e cmd args cwd s =
     (if isCommandWithArgsDisabled (disabledCommands s) cmd args then
        (let errorMsg = disabled_message cmd args;
             (i, s1) = add_process (\<lambda>i. new_info i cmd args False None [errorMsg]) s
         in (i, appendError e cmd errorMsg i s1))
      else
        (let dir = (if cwd = [] then None else Some cwd);
             s0 = os_call (Spawn cmd args dir) s
         in case spawn e cmd args dir of
              Spawned p \<Rightarrow> add_process (\<lambda>i. new_info i cmd args True p []) s0
            | SpawnThrows msg \<Rightarrow>
                (let (i, s1) = add_process (\<lambda>i. new_info i cmd args False None [msg]) s0
                 in (i, appendError e cmd msg i s1))))"

definition killProcess :: "env \<Rightarrow> nat \<Rightarrow> state \<Rightarrow> state" where
  "killProcess e processId s =
     (case map_of (processes s) processId of
        None \<Rightarrow> s
      | Some info \<Rightarrow>
          (if truthy (info_pid info) then
             (let p = the (info_pid info);
                  s1 = os_call (GroupKill p SIGTERM) s
              in case group_kill_throws e p of
                   None \<Rightarrow> s1
                 | Some m \<Rightarrow>
                     appendError e (info_command info)
                       (''Error killing process '' @ show_int p @ '': '' @ m) processId s1)
           else
             appendError e (info_command info)
               ''Cannot kill process: process was never started or already exited.''
               processId s))"

definition checkErrors :: "nat \<Rightarrow> state \<Rightarrow> string list" where
  "checkErrors processId s =
     (case map_of (processes s) processId of
        None \<Rightarrow> [''Process ID '' @ show_nat processId @ '' not found.'']
      | Some info \<Rightarrow> info_errors info)"

text \<open>\<open>[...pm.processes.values()].find(p => p.pid === pid)\<close>: the first record, in insertion
  order, with that pid.\<close>

definition find_by_pid :: "int option \<Rightarrow> state \<Rightarrow> procInfo option" where
  "find_by_pid p s = find (\<lambda>info. info_pid info = p) (map snd (processes s))"

section \<open>Instance Registry and Reconciliation Loop (server.js)\<close>

text \<open>
  \<open>inst.pid && isPidRunning(inst.pid)\<close>: a falsy pid is the value of the expression
  (\<open>None\<close> here: \<open>null\<close> or \<open>0\<close>, which is no boolean), otherwise the boolean of the probe.
\<close>

definition pid_and_running :: "env \<Rightarrow> int option \<Rightarrow> bool option" where
  "pid_and_running e p =
     (case p of None \<Rightarrow> None | Some n \<Rightarrow> if n = 0 then None else Some (isPidRunning e n))"

text \<open>The initial instance check, run once when the module is loaded.\<close>

definition initial_instance :: "env \<Rightarrow> inst \<Rightarrow> inst" where
  "initial_instance e i =
     (if pid_and_running e (pid i) = Some True then i\<lparr>status := ''running''\<rparr>
      else i\<lparr>status := ''stopped'', pid := None\<rparr>)"

fun initial_check :: "env \<Rightarrow> registry \<Rightarrow> registry" where
  "initial_check e [] = []"
| "initial_check e ((k, i) # rest) = (k, initial_instance e i) # initial_check e rest"

text \<open>
  The state once \<open>server.js\<close> is loaded: \<open>loaded\<close> is what \<open>instances.json\<close> held (empty when
  there was no file), \<open>rules\<close> what \<open>disabled_commands.json\<close> held.
\<close>

definition startup :: "env \<Rightarrow> entry list \<Rightarrow> string \<Rightarrow> registry \<Rightarrow> state" where
  "startup e rules dir loaded =
     saveInstances
       \<lparr>instances = initial_check e loaded, instanceLogs = [], processes = [], nextId = 1,
        disabledCommands = rules, logDir = dir, disk = loaded, saves = 0, emitted = [],
        os_calls = []\<rparr>"

text \<open>
  The body of the loop of the periodic status check, for one instance: the new entry and
  whether \<open>changed\<close> was set. \<open>wasRunning !== isRunningNow\<close> compares a boolean with the
  value of \<open>inst.pid && isPidRunning(inst.pid)\<close>, strictly.
\<close>

definition reconcile_instance :: "env \<Rightarrow> inst \<Rightarrow> inst \<times> bool" where
  "reconcile_instance e i =
     (let wasRunning = (status i = ''running'');
          isRunningNow = pid_and_running e (pid i)
      in if isRunningNow \<noteq> Some wasRunning then
           (let i1 = i\<lparr>status := (if isRunningNow = Some True then ''running'' else ''stopped'')\<rparr>;
                i2 = (if isRunningNow = Some True then i1 else i1\<lparr>pid := None\<rparr>)
            in (i2, True))
         else (i, False))"

fun reconcile_loop :: "env \<Rightarrow> registry \<Rightarrow> bool \<Rightarrow> registry \<times> bool" where
  "reconcile_loop e [] changed = ([], changed)"
| "reconcile_loop e ((k, i) # rest) changed =
     (let (i', c) = reconcile_instance e i;
          (rest', changed') = reconcile_loop e rest (if c then True else changed)
      in ((k, i') # rest', changed'))"

text \<open>One run of the \<open>setInterval\<close> callback.\<close>

definition tick :: "env \<Rightarrow> state \<Rightarrow> state" where
  "tick e s =
     (let (reg, changed) = reconcile_loop e (instances s) False;
          s1 = s\<lparr>instances := reg\<rparr>
      in if changed then
           (let s2 = saveInstances s1 in emit (InstancesStatus (instances s2)) s2)
         else s1)"

section \<open>Log Buffer (appendInstanceLog)\<close>

fun push_lines :: "string list \<Rightarrow> string list \<Rightarrow> string list" where
  "push_lines buf [] = buf"
| "push_lines buf (line # lines) =
     (if trim line = [] then push_lines buf lines else push_lines (buf @ [line]) lines)"

function shift_loop :: "string list \<Rightarrow> string list" where
  "shift_loop buf = (if length buf > 400 then shift_loop (tl buf) else buf)"
  by pat_completeness auto
termination
  by (relation "measure length") auto

declare shift_loop.simps [simp del]

definition log_buffer :: "state \<Rightarrow> string \<Rightarrow> string list" where
  "log_buffer s nm = (case map_of (instanceLogs s) nm of None \<Rightarrow> [] | Some buf \<Rightarrow> buf)"

definition appendInstanceLog :: "string \<Rightarrow> string \<Rightarrow> state \<Rightarrow> state" where
  "appendInstanceLog nm txt s =
     (let buf = shift_loop (push_lines (log_buffer s nm) (split_lines txt []))
      in emit (Log nm txt) (s\<lparr>instanceLogs := AList.update nm buf (instanceLogs s)\<rparr>))"

text \<open>The route \<open>GET /instances/:name/logs\<close>: \<open>instanceLogs[name] || ''\<close>, as the lines sent
  (none for the empty string).\<close>

definition get_logs :: "state \<Rightarrow> string \<Rightarrow> string list" where
  "get_logs s nm = log_buffer s nm"

section \<open>Lifecycle Orchestrator (server.js)\<close>

text \<open>The route \<open>POST /instances\<close>.\<close>

definition post_instances :: "string \<Rightarrow> string \<Rightarrow> string \<Rightarrow> state \<Rightarrow> (error + unit) \<times> state" where
  "post_instances nm dir cmd s =
     (if nm = [] \<or> dir = [] \<or> cmd = [] then (Inl (Error ''Missing fields''), s)
      else case map_of (instances s) nm of
        Some _ \<Rightarrow> (Inl (Error ''Instance already exists''), s)
      | None \<Rightarrow>
          (Inr (),
           saveInstances
             (s\<lparr>instances :=
                  AList.update nm
                    \<lparr>name = nm, workingDir = dir, command = cmd, status = ''stopped'', pid = None\<rparr>
                    (instances s)\<rparr>)))"

definition start_failed :: "string \<Rightarrow> error" where
  "start_failed nm = Error (''Failed to start process for '' @ nm)"

text \<open>
  \<open>startServer(name, io)\<close> of the supervisor-based \<open>server.js\<close>. The handlers it attaches to
  the child's stdout and stderr call \<^const>\<open>appendInstanceLog\<close> when data arrives, which
  is a later event.
\<close>

definition startServer :: "env \<Rightarrow> string \<Rightarrow> state \<Rightarrow> (error + int) \<times> state" where
  "startServer e nm s =
     (case map_of (instances s) nm of
        None \<Rightarrow> (Inl (Error ''Instance not found''), s)
      | Some instance \<Rightarrow>
          (let (cmd, args) = split_on CHR '' '' (command instance) [];
               fullPath = path_join e (workingDir instance) cmd;
               cmdToRun = (if pathExists e fullPath then fullPath else cmd);
               (i, s1) = spawnProcess e cmdToRun args (workingDir instance) s
           in case map_of (processes s1) i of
                None \<Rightarrow> (Inl (start_failed nm), s1)
              | Some procInfo \<Rightarrow>
                  (case info_pid procInfo of
                     None \<Rightarrow> (Inl (start_failed nm), s1)
                   | Some p \<Rightarrow>
                       if p = 0 then (Inl (start_failed nm), s1)
                       else
                         (let s2 = s1\<lparr>instances :=
                                       AList.update nm (instance\<lparr>pid := Some p, status := ''running''\<rparr>)
                                         (instances s1)\<rparr>;
                              s3 = emit (StatusUpdate nm ''running'') (saveInstances s2)
                          in (Inr p, s3)))))"

text \<open>The \<open>cleanup\<close> closure of \<open>stopServer\<close>.\<close>

definition cleanup :: "string \<Rightarrow> inst \<Rightarrow> procInfo \<Rightarrow> state \<Rightarrow> state" where
  "cleanup nm instance found s =
     saveInstances
       (s\<lparr>instances := AList.update nm (instance\<lparr>status := ''stopped'', pid := None\<rparr>) (instances s),
          processes := AList.delete (info_id found) (processes s)\<rparr>)"

text \<open>
  \<open>stopServer(name)\<close>, from the call to the moment its promise settles: either the child's
  \<open>exit\<close> event comes before the timer fires (\<open>exits_in_time\<close>), or the timer kills the
  child and settles the promise.
\<close>

definition stopServer :: "env \<Rightarrow> string \<Rightarrow> state \<Rightarrow> (error + unit) \<times> state" where
  "stopServer e nm s =
     (case map_of (instances s) nm of
        None \<Rightarrow> (Inl (Error ''Instance not running''), s)
      | Some instance \<Rightarrow>
          (case pid instance of
             None \<Rightarrow> (Inl (Error ''Instance not running''), s)
           | Some p \<Rightarrow>
               if p = 0 then (Inl (Error ''Instance not running''), s)
               else
                 (case find_by_pid (Some p) s of
                    None \<Rightarrow> (Inl (Error ''Process info not found''), s)
                  | Some found \<Rightarrow>
                      if info_proc found then
                        (case stdin_write_throws e p of
                           Some msg \<Rightarrow> (Inl (Error (''Failed to send stop command: '' @ msg)), s)
                         | None \<Rightarrow>
                             (let s1 = os_call (StdinWrite p (''stop'' @ [CHR 0x0A])) s
                              in if exits_in_time e p then (Inr (), cleanup nm instance found s1)
                                 else (Inr (), cleanup nm instance found (os_call (ProcKill p SIGKILL) s1))))
                      else (Inl (Error ''Process info not found''), s))))"

text \<open>
  \<open>waitUntilStopped(name, timeoutMs)\<close>: \<open>check\<close> runs every 250 ms; \<open>observe k\<close> is the
  \<open>instances\<close> object as the \<open>k\<close>-th run of \<open>check\<close> finds it.
\<close>

function check :: "(nat \<Rightarrow> registry) \<Rightarrow> string \<Rightarrow> nat \<Rightarrow> nat \<Rightarrow> nat \<Rightarrow> error + unit" where
  "check observe nm timeoutMs waited k =
     (if (case map_of (observe k) nm of None \<Rightarrow> True | Some i \<Rightarrow> status i = ''stopped'')
      then Inr ()
      else if waited + 250 \<ge> timeoutMs
        then Inl (Error (''Instance '' @ nm @ '' did not stop in time.''))
        else check observe nm timeoutMs (waited + 250) (k + 1))"
  by pat_completeness auto
termination
  by (relation "measure (\<lambda>(observe, nm, timeoutMs, waited, k). timeoutMs - waited)") auto

declare check.simps [simp del]

definition waitUntilStopped :: "(nat \<Rightarrow> registry) \<Rightarrow> string \<Rightarrow> nat \<Rightarrow> error + unit" where
  "waitUntilStopped observe nm timeoutMs = check observe nm timeoutMs 0 0"

text \<open>
  \<open>restartServer(name, io)\<close>, with no other handler running while it waits: every run of
  \<open>check\<close> finds the \<open>instances\<close> object as \<open>stopServer\<close> left it.
\<close>

definition restartServer :: "env \<Rightarrow> string \<Rightarrow> state \<Rightarrow> (error + int) \<times> state" where
  "restartServer e nm s =
     (case stopServer e nm s of
        (Inl err, s1) \<Rightarrow> (Inl err, s1)
      | (Inr _, s1) \<Rightarrow>
          (case waitUntilStopped (\<lambda>k. instances s1) nm 5000 of
             Inl err \<Rightarrow> (Inl err, s1)
           | Inr _ \<Rightarrow> startServer e nm s1))"

text \<open>
  The first declaration of \<open>terminateInstance\<close> (\<open>// just kill process\<close>). The file declares
  a function of this name a second time, below, and in JavaScript the later declaration
  is the one a call reaches.
\<close>

definition terminateInstance :: "env \<Rightarrow> string \<Rightarrow> state \<Rightarrow> state" where
  "terminateInstance e nm s =
     (case map_of (instances s) nm of
        None \<Rightarrow> s
      | Some instance \<Rightarrow>
          if truthy (pid instance) then
            (let s1 = (case find_by_pid (pid instance) s of
                         None \<Rightarrow> s
                       | Some found \<Rightarrow> killProcess e (info_id found) s)
             in saveInstances
                  (s1\<lparr>instances :=
                        AList.update nm (instance\<lparr>status := ''terminated'', pid := None\<rparr>) (instances s1)\<rparr>))
          else s)"

text \<open>
  The identifier \<open>processes\<close>. The supervisor-based \<open>server.js\<close> never declares it (only the
  legacy \<open>server.js\<close> does), so reading it throws a \<open>ReferenceError\<close>. Where it was
  declared, its value would say for each name whether a child process is stored.
\<close>

definition read_processes :: "error + (string \<Rightarrow> bool)" where
  "read_processes = Inl (ReferenceError ''processes is not defined'')"

text \<open>
  The second declaration, \<open>terminateInstance(name, socket)\<close> (\<open>// Terminate instance helper\<close>),
  which is the one the \<open>terminate\<close> action of the socket reaches. Its first statement reads
  \<open>processes[name]\<close>.
\<close>

definition terminateInstance_socket :: "string \<Rightarrow> state \<Rightarrow> (error + unit) \<times> state" where
  "terminateInstance_socket nm s =
     (case read_processes of
        Inl err \<Rightarrow> (Inl err, s)
      | Inr processes_table \<Rightarrow>
          (let s1 = (if processes_table nm then os_call (LegacyKill nm) s else s);
               s2 = (case map_of (instances s1) nm of
                       None \<Rightarrow> s1
                     | Some _ \<Rightarrow> s1\<lparr>instances := AList.delete nm (instances s1)\<rparr>);
               s3 = emit (ActionResponse True ''terminate'' []) (saveInstances s2)
           in (Inr (), emit (InstancesStatus (instances s3)) (emit (InstancesList (instances s3)) s3))))"

text \<open>The socket handler \<open>updateInstanceSettings\<close>.\<close>

definition updateInstanceSettings :: "string \<Rightarrow> string \<Rightarrow> string \<Rightarrow> string \<Rightarrow> state \<Rightarrow> state" where
  "updateInstanceSettings originalName nm dir cmd s =
     (case map_of (instances s) originalName of
        None \<Rightarrow> emit (ActionResponse False ''updateInstanceSettings'' ''Instance not found'') s
      | Some i \<Rightarrow>
          (let i' = i\<lparr>name := nm, workingDir := dir, command := cmd\<rparr>;
               reg1 = AList.update originalName i' (instances s);
               reg2 = (if originalName \<noteq> nm
                       then AList.delete originalName (AList.update nm i' reg1) else reg1);
               s1 = emit (ActionResponse True ''updateInstanceSettings'' []) (s\<lparr>instances := reg2\<rparr>)
           in emit (InstancesList (instances s1)) s1))"

text \<open>The calls that reach the registry, and the program's step on each.\<close>

datatype call =
    Register string string string
  | Start string
  | Stop string
  | Restart string
  | Terminate string
  | TerminateSocket string
  | UpdateSettings string string string string
  | Tick
  | Output string string

fun step :: "env \<Rightarrow> call \<Rightarrow> state \<Rightarrow> state" where
  "step e (Register nm dir cmd) s = snd (post_instances nm dir cmd s)"
| "step e (Start nm) s = snd (startServer e nm s)"
| "step e (Stop nm) s = snd (stopServer e nm s)"
| "step e (Restart nm) s = snd (restartServer e nm s)"
| "step e (Terminate nm) s = terminateInstance e nm s"
| "step e (TerminateSocket nm) s = snd (terminateInstance_socket nm s)"
| "step e (UpdateSettings originalName nm dir cmd) s = updateInstanceSettings originalName nm dir cmd s"
| "step e Tick s = tick e s"
| "step e (Output nm txt) s = appendInstanceLog nm txt s"

text \<open>A run: each call with the environment it meets.\<close>

fun run :: "(env \<times> call) list \<Rightarrow> state \<Rightarrow> state" where
  "run [] s = s"
| "run ((e, c) # cs) s = run cs (step e c s)"

section \<open>The claims' own words, and example inputs\<close>

text \<open>
  The Command Gate as the specification words it: an entry matches a request when the
  commands are equal without regard to case and the entry has no arguments (absent or
  empty), or every argument of the entry equals, without regard to case, the request's
  argument at the same position.
\<close>

definition spec_entry_matches :: "entry \<Rightarrow> string \<Rightarrow> string list \<Rightarrow> bool" where
  "spec_entry_matches e cmd args \<longleftrightarrow>
     toLowerCase (entry_command e) = toLowerCase cmd \<and>
     (entry_args e = None \<or> entry_args e = Some [] \<or>
      (\<exists>eargs. entry_args e = Some eargs \<and>
         (\<forall>i < length eargs. i < length args \<and> toLowerCase (eargs ! i) = toLowerCase (args ! i))))"


text \<open>An entry that disables \<open>rm -rf\<close>.\<close>

definition rm_rule :: entry where "rm_rule = \<lparr>entry_command = ''rm'', entry_args = Some [''-rf'']\<rparr>"


text \<open>
  The registry's invariant: an entry has a pid exactly when its status is \<open>running\<close>.
\<close>

definition inst_ok :: "inst \<Rightarrow> bool" where
  "inst_ok i \<longleftrightarrow> (pid i \<noteq> None) = (status i = ''running'')"

definition registry_inv :: "registry \<Rightarrow> bool" where
  "registry_inv reg = list_all inst_ok (map snd reg)"

text \<open>
  An environment: no command is found in the working directory, every spawn gives the
  pid 4242, which is the only live pid, writes and kills do not throw, and a stopped child
  exits in time.
\<close>

definition env0 :: env where
  "env0 =
     \<lparr>pathExists = (\<lambda>f. False), path_join = (\<lambda>d f. d @ ''/'' @ f),
      spawn = (\<lambda>c a d. Spawned (Some 4242)), isPidRunning = (\<lambda>p. p = 4242),
      stdin_write_throws = (\<lambda>p. None), exits_in_time = (\<lambda>p. True),
      group_kill_throws = (\<lambda>p. None), timestamp = ''t''\<rparr>"

text \<open>The same with every pid dead.\<close>

definition env_dead :: env where
  "env_dead = env0\<lparr>isPidRunning := (\<lambda>p. False)\<rparr>"

text \<open>A registered, stopped instance, and the state right after a startup that loads it.\<close>

definition alpha :: inst where
  "alpha =
     \<lparr>name = ''alpha'', workingDir = ''/srv/alpha'', command = ''run.sh'', status = ''stopped'',
      pid = None\<rparr>"

definition s_alpha :: state where
  "s_alpha = startup env0 [] ''logs'' [(''alpha'', alpha)]"

text \<open>The same environment with every pid alive, and two running instances loaded at startup.\<close>

definition env_live :: env where
  "env_live = env0\<lparr>isPidRunning := (\<lambda>p. True)\<rparr>"

definition inst_a :: inst where
  "inst_a = \<lparr>name = ''a'', workingDir = ''/srv/a'', command = ''run.sh'', status = ''running'', pid = Some 11\<rparr>"

definition inst_b :: inst where
  "inst_b = \<lparr>name = ''b'', workingDir = ''/srv/b'', command = ''run.sh'', status = ''running'', pid = Some 12\<rparr>"

definition s_two :: state where
  "s_two = startup env_live [] ''logs'' [(''a'', inst_a), (''b'', inst_b)]"

text \<open>
  The lines of a chunk that the loop of \<open>appendInstanceLog\<close> pushes: those that
  \<open>line.trim() === ""\<close> does not skip.
\<close>

definition kept_lines :: "string \<Rightarrow> string list" where
  "kept_lines txt = filter (\<lambda>l. trim l \<noteq> []) (split_lines txt [])"

text \<open>
  The Log Buffer's append as the specification words it: the chunk is split on line
  boundaries, the purely empty lines are discarded, the rest is appended, and the front is
  trimmed until at most 400 lines remain.
\<close>

definition spec_kept_lines :: "string \<Rightarrow> string list" where
  "spec_kept_lines txt = filter (\<lambda>l. l \<noteq> []) (split_lines txt [])"

definition spec_append :: "string list \<Rightarrow> string \<Rightarrow> string list" where
  "spec_append buf txt =
     (let lines = buf @ spec_kept_lines txt in drop (length lines - 400) lines)"

text \<open>A state whose buffer for \<open>alpha\<close> is full.\<close>

definition s_full :: state where
  "s_full = s_alpha\<lparr>instanceLogs := [(''alpha'', ''oldest'' # replicate 399 ''x'')]\<rparr>"

text \<open>
  \<open>alpha\<close> started (record 1 of the supervisor, pid 4242), the same with one line of output
  captured, and an environment in which the next spawn gives the pid 4343.
\<close>

definition s_running :: state where
  "s_running = snd (startServer env0 ''alpha'' s_alpha)"

definition env_next :: env where
  "env_next = env0\<lparr>spawn := (\<lambda>c a d. Spawned (Some 4343)), isPidRunning := (\<lambda>p. p = 4242 \<or> p = 4343)\<rparr>"

definition s_logged :: state where
  "s_logged = appendInstanceLog ''alpha'' (''hello'' @ [CHR 0x0A]) s_running"

text \<open>\<open>alpha\<close> stopped again, with that line still in its buffer.\<close>

definition s_quiet :: state where
  "s_quiet = snd (stopServer env0 ''alpha'' s_logged)"

definition handle1 :: procInfo where
  "handle1 = new_info 1 ''run.sh'' [] True (Some 4242) []"

text \<open>An environment in which a child that is told to stop does not exit before the timer fires.\<close>

definition env_slow :: env where
  "env_slow = env0\<lparr>exits_in_time := (\<lambda>p. False)\<rparr>"

text \<open>
  The state after the supervisor itself was restarted while \<open>alpha\<close> ran: \<open>instances.json\<close>
  remembers the pid, the initial check finds it alive, and \<open>pm.processes\<close> is empty.
\<close>

definition alpha_running :: inst where
  "alpha_running = alpha\<lparr>status := ''running'', pid := Some 4242\<rparr>"

definition s_untracked :: state where
  "s_untracked = startup env_live [] ''logs'' [(''alpha'', alpha_running)]"

text \<open>An instance whose command the denylist of \<^const>\<open>rm_rule\<close> refuses.\<close>

definition danger :: inst where
  "danger = \<lparr>name = ''danger'', workingDir = ''/srv/danger'', command = ''rm -rf world'', status = ''stopped'', pid = None\<rparr>"

definition s_denied :: state where
  "s_denied = startup env0 [rm_rule] ''logs'' [(''danger'', danger)]"

definition is_Spawn :: "os_call \<Rightarrow> bool" where
  "is_Spawn c = (case c of Spawn cmd args dir \<Rightarrow> True | _ \<Rightarrow> False)"







section \<open>Command Gate: the denylist match\<close>

lemma args_loop_iff:
  "args_loop eargs argsLower i \<longleftrightarrow>
     (\<forall>j. i \<le> j \<and> j < length eargs \<longrightarrow> toLowerCase (eargs ! j) = argsLower ! j)"
proof (induction eargs argsLower i rule: args_loop.induct)
  case (1 eargs argsLower i)
  show ?case
  proof (cases "i < length eargs")
    case False
    then show ?thesis by (subst args_loop.simps) auto
  next
    case True
    note lt = this
    show ?thesis
    proof (cases "toLowerCase (eargs ! i) = argsLower ! i")
      case False
      with lt show ?thesis by (subst args_loop.simps) auto
    next
      case True
      have "args_loop eargs argsLower i = args_loop eargs argsLower (i + 1)"
        using lt True by (subst args_loop.simps) simp
      also have "\<dots> \<longleftrightarrow> (\<forall>j. i + 1 \<le> j \<and> j < length eargs \<longrightarrow> toLowerCase (eargs ! j) = argsLower ! j)"
        using "1.IH" lt True by simp
      also have "\<dots> \<longleftrightarrow> (\<forall>j. i \<le> j \<and> j < length eargs \<longrightarrow> toLowerCase (eargs ! j) = argsLower ! j)"
      proof (intro iffI allI impI)
        fix j
        assume h: "\<forall>j. i + 1 \<le> j \<and> j < length eargs \<longrightarrow> toLowerCase (eargs ! j) = argsLower ! j"
          and j: "i \<le> j \<and> j < length eargs"
        show "toLowerCase (eargs ! j) = argsLower ! j"
        proof (cases "j = i")
          case True
          with \<open>toLowerCase (eargs ! i) = argsLower ! i\<close> show ?thesis by simp
        next
          case False
          with j have "i + 1 \<le> j \<and> j < length eargs" by simp
          with h show ?thesis by blast
        qed
      next
        fix j
        assume h: "\<forall>j. i \<le> j \<and> j < length eargs \<longrightarrow> toLowerCase (eargs ! j) = argsLower ! j"
          and j: "i + 1 \<le> j \<and> j < length eargs"
        from j have "i \<le> j \<and> j < length eargs" by simp
        with h show "toLowerCase (eargs ! j) = argsLower ! j" by blast
      qed
      finally show ?thesis .
    qed
  qed
qed

lemma entry_disables_spec:
  "entry_disables (toLowerCase cmd) (map toLowerCase args) e = spec_entry_matches e cmd args"
proof (cases "entry_args e")
  case None
  then show ?thesis by (simp add: entry_disables_def spec_entry_matches_def)
next
  case (Some eargs)
  show ?thesis
  proof (cases "length eargs \<le> length args")
    case True
    have "args_loop eargs (map toLowerCase args) 0 \<longleftrightarrow>
          (\<forall>j. j < length eargs \<longrightarrow> toLowerCase (eargs ! j) = map toLowerCase args ! j)"
      by (simp add: args_loop_iff)
    also have "\<dots> \<longleftrightarrow>
          (\<forall>i < length eargs. i < length args \<and> toLowerCase (eargs ! i) = toLowerCase (args ! i))"
    proof (intro iffI allI impI)
      fix i
      assume h: "\<forall>j. j < length eargs \<longrightarrow> toLowerCase (eargs ! j) = map toLowerCase args ! j"
        and i: "i < length eargs"
      from i True have ia: "i < length args" by simp
      from h i have "toLowerCase (eargs ! i) = map toLowerCase args ! i" by blast
      with ia show "i < length args \<and> toLowerCase (eargs ! i) = toLowerCase (args ! i)" by simp
    next
      fix j
      assume h: "\<forall>i < length eargs. i < length args \<and> toLowerCase (eargs ! i) = toLowerCase (args ! i)"
        and j: "j < length eargs"
      from h j have "j < length args \<and> toLowerCase (eargs ! j) = toLowerCase (args ! j)" by blast
      then show "toLowerCase (eargs ! j) = map toLowerCase args ! j" by simp
    qed
    finally have loop: "args_loop eargs (map toLowerCase args) 0 \<longleftrightarrow>
          (\<forall>i < length eargs. i < length args \<and> toLowerCase (eargs ! i) = toLowerCase (args ! i))" .
    show ?thesis
    proof (cases "eargs = []")
      case True
      with Some show ?thesis by (simp add: entry_disables_def spec_entry_matches_def)
    next
      case False
      with Some \<open>length eargs \<le> length args\<close> loop show ?thesis
        by (simp add: entry_disables_def spec_entry_matches_def)
    qed
  next
    case False
    then have lt: "length args < length eargs" by simp
    have "\<not> (\<forall>i < length eargs. i < length args \<and> toLowerCase (eargs ! i) = toLowerCase (args ! i))"
    proof
      assume "\<forall>i < length eargs. i < length args \<and> toLowerCase (eargs ! i) = toLowerCase (args ! i)"
      with lt have "length args < length args" by blast
      then show False by simp
    qed
    moreover from lt have "eargs \<noteq> []" by auto
    ultimately show ?thesis using lt Some
      by (simp add: entry_disables_def spec_entry_matches_def)
  qed
qed

text \<open>
  The same match, said with lists: the entry's arguments, in lower case, are a prefix of
  the request's.
\<close>

lemma spec_entry_matches_prefix:
  "spec_entry_matches e cmd args \<longleftrightarrow>
     toLowerCase (entry_command e) = toLowerCase cmd \<and>
     (case entry_args e of None \<Rightarrow> True
      | Some eargs \<Rightarrow> prefix (map toLowerCase eargs) (map toLowerCase args))"
proof -
  have p: "\<And>eargs. prefix (map toLowerCase eargs) (map toLowerCase args) \<longleftrightarrow>
      (\<forall>i < length eargs. i < length args \<and> toLowerCase (eargs ! i) = toLowerCase (args ! i))"
  proof
    fix eargs
    assume pre: "prefix (map toLowerCase eargs) (map toLowerCase args)"
    then obtain zs where zs: "map toLowerCase args = map toLowerCase eargs @ zs"
      by (auto simp: prefix_def)
    from pre have le: "length eargs \<le> length args"
      using prefix_length_le by fastforce
    show "\<forall>i < length eargs. i < length args \<and> toLowerCase (eargs ! i) = toLowerCase (args ! i)"
    proof (intro allI impI)
      fix i
      assume i: "i < length eargs"
      with le have ia: "i < length args" by simp
      from zs have "map toLowerCase args ! i = (map toLowerCase eargs @ zs) ! i" by simp
      with i ia show "i < length args \<and> toLowerCase (eargs ! i) = toLowerCase (args ! i)"
        by (simp add: nth_append)
    qed
  next
    fix eargs
    assume h: "\<forall>i < length eargs. i < length args \<and> toLowerCase (eargs ! i) = toLowerCase (args ! i)"
    have le: "length eargs \<le> length args"
    proof (rule ccontr)
      assume "\<not> length eargs \<le> length args"
      then have "length args < length eargs" by simp
      with h have "length args < length args" by blast
      then show False by simp
    qed
    have "take (length eargs) (map toLowerCase args) = map toLowerCase eargs"
    proof (rule nth_equalityI)
      show "length (take (length eargs) (map toLowerCase args)) = length (map toLowerCase eargs)"
        using le by simp
    next
      fix i
      assume "i < length (take (length eargs) (map toLowerCase args))"
      with le have i: "i < length eargs" by simp
      with h have "i < length args \<and> toLowerCase (eargs ! i) = toLowerCase (args ! i)" by blast
      with i show "take (length eargs) (map toLowerCase args) ! i = map toLowerCase eargs ! i"
        by simp
    qed
    then show "prefix (map toLowerCase eargs) (map toLowerCase args)"
      by (metis take_is_prefix)
  qed
  show ?thesis
  proof (cases "entry_args e")
    case None
    then show ?thesis by (simp add: spec_entry_matches_def)
  next
    case (Some eargs)
    show ?thesis
    proof (cases "eargs = []")
      case True
      with Some show ?thesis by (simp add: spec_entry_matches_def)
    next
      case False
      with Some p [of eargs] show ?thesis by (simp add: spec_entry_matches_def)
    qed
  qed
qed

text \<open>
  Claim C6. For every command and argument list, \<open>isCommandWithArgsDisabled\<close> is true
  exactly when some entry of the denylist has the request's command, compared without
  regard to case, and either has no arguments (absent or empty) or has each of its
  arguments equal, without regard to case and position by position, to the request's
  argument at that position.
\<close>

theorem isCommandWithArgsDisabled_spec:
  "isCommandWithArgsDisabled rules cmd args \<longleftrightarrow> (\<exists>e \<in> set rules. spec_entry_matches e cmd args)"
  by (simp add: isCommandWithArgsDisabled_def list_ex_iff entry_disables_spec)

theorem isCommandWithArgsDisabled_spec_witness:
  "isCommandWithArgsDisabled [rm_rule] ''RM'' [''-RF'', ''x''] \<and>
   (\<exists>e \<in> set [rm_rule]. spec_entry_matches e ''RM'' [''-RF'', ''x''])"
proof -
  have "isCommandWithArgsDisabled [rm_rule] ''RM'' [''-RF'', ''x'']" by code_simp
  with isCommandWithArgsDisabled_spec [of "[rm_rule]" "''RM''" "[''-RF'', ''x'']"]
  show ?thesis by simp
qed

section \<open>The registry's invariant\<close>

lemma registry_inv_update:
  "registry_inv reg \<Longrightarrow> inst_ok v \<Longrightarrow> registry_inv (AList.update k v reg)"
  by (induction reg) (auto simp: registry_inv_def)

lemma registry_inv_delete: "registry_inv reg \<Longrightarrow> registry_inv (AList.delete k reg)"
  by (induction reg) (auto simp: registry_inv_def)

lemma registry_inv_lookup: "registry_inv reg \<Longrightarrow> map_of reg k = Some i \<Longrightarrow> inst_ok i"
  by (induction reg) (auto simp: registry_inv_def split: if_splits)

lemma inst_ok_initial: "inst_ok (initial_instance e i)"
  by (cases "pid i") (auto simp: inst_ok_def initial_instance_def pid_and_running_def)

lemma registry_inv_initial_check: "registry_inv (initial_check e reg)"
  by (induction reg) (auto simp: registry_inv_def inst_ok_initial)

lemma inst_ok_reconcile: "inst_ok i \<Longrightarrow> inst_ok (fst (reconcile_instance e i))"
  by (cases "pid i") (auto simp: inst_ok_def reconcile_instance_def pid_and_running_def Let_def)

lemma fst_reconcile_loop:
  "map snd (fst (reconcile_loop e reg changed)) = map (\<lambda>(k, i). fst (reconcile_instance e i)) reg"
  by (induction reg arbitrary: changed) (auto simp: case_prod_beta Let_def)

lemma registry_inv_reconcile_loop:
  "registry_inv reg \<Longrightarrow> registry_inv (fst (reconcile_loop e reg changed))"
  by (auto simp: registry_inv_def fst_reconcile_loop list_all_iff inst_ok_reconcile)

lemma instances_saveInstances: "instances (saveInstances s) = instances s"
  by (simp add: saveInstances_def)

lemma instances_emit: "instances (emit ev s) = instances s"
  by (simp add: emit_def)

lemma instances_os_call: "instances (os_call c s) = instances s"
  by (simp add: os_call_def)

lemma instances_appendError: "instances (appendError e c m i s) = instances s"
  by (simp add: appendError_def Let_def instances_os_call)

lemma instances_add_process: "instances (snd (add_process mk s)) = instances s"
  by (simp add: add_process_def Let_def)

lemma instances_spawnProcess: "instances (snd (spawnProcess e c a d s)) = instances s"
  by (simp add: spawnProcess_def Let_def case_prod_beta instances_appendError instances_add_process
      instances_os_call split: spawn_result.splits)

lemma instances_killProcess: "instances (killProcess e i s) = instances s"
  by (simp add: killProcess_def Let_def instances_appendError instances_os_call split: option.splits)

lemmas instances_simps =
  instances_saveInstances instances_emit instances_os_call instances_appendError
  instances_add_process instances_spawnProcess instances_killProcess

lemma inv_tick: "registry_inv (instances s) \<Longrightarrow> registry_inv (instances (tick e s))"
  using registry_inv_reconcile_loop [of "instances s" e False]
  by (simp add: tick_def Let_def case_prod_beta instances_simps)

lemma inv_post_instances:
  "registry_inv (instances s) \<Longrightarrow> registry_inv (instances (snd (post_instances n d c s)))"
  by (simp add: post_instances_def inst_ok_def registry_inv_update instances_simps split: option.splits)

lemma inv_startServer:
  "registry_inv (instances s) \<Longrightarrow> registry_inv (instances (snd (startServer e n s)))"
proof (cases "map_of (instances s) n")
  case None
  assume "registry_inv (instances s)"
  with None show ?thesis by (simp add: startServer_def)
next
  case (Some i)
  assume inv: "registry_inv (instances s)"
  have ok: "\<And>p. inst_ok (i\<lparr>pid := Some p, status := ''running''\<rparr>)" by (simp add: inst_ok_def)
  show ?thesis
    using Some inv ok
    by (simp add: startServer_def Let_def case_prod_beta registry_inv_update instances_simps
        split: option.splits)
qed

lemma instances_cleanup:
  "instances (cleanup n i f s) = AList.update n (i\<lparr>status := ''stopped'', pid := None\<rparr>) (instances s)"
  by (simp add: cleanup_def instances_simps)

lemma inv_cleanup: "registry_inv (instances s) \<Longrightarrow> registry_inv (instances (cleanup n i f s))"
  by (simp add: instances_cleanup inst_ok_def registry_inv_update instances_simps)

lemma inv_stopServer:
  "registry_inv (instances s) \<Longrightarrow> registry_inv (instances (snd (stopServer e n s)))"
  by (simp add: stopServer_def Let_def inv_cleanup instances_simps split: option.splits)

lemma inv_restartServer:
  "registry_inv (instances s) \<Longrightarrow> registry_inv (instances (snd (restartServer e n s)))"
proof -
  assume inv: "registry_inv (instances s)"
  obtain r s1 where st: "stopServer e n s = (r, s1)" by (cases "stopServer e n s")
  from inv_stopServer [OF inv, of e n] st have inv1: "registry_inv (instances s1)" by simp
  show ?thesis
  proof (cases r)
    case (Inl err)
    with st inv1 show ?thesis by (simp add: restartServer_def)
  next
    case (Inr u)
    show ?thesis
    proof (cases "waitUntilStopped (\<lambda>k. instances s1) n 5000")
      case (Inl err)
      with st Inr inv1 show ?thesis by (simp add: restartServer_def)
    next
      case (Inr v)
      with st \<open>r = Inr u\<close> inv_startServer [OF inv1, of e n] show ?thesis
        by (simp add: restartServer_def)
    qed
  qed
qed

lemma inv_terminateInstance:
  "registry_inv (instances s) \<Longrightarrow> registry_inv (instances (terminateInstance e n s))"
  by (simp add: terminateInstance_def Let_def inst_ok_def registry_inv_update instances_simps
      split: option.splits)

lemma inv_terminateInstance_socket:
  "registry_inv (instances s) \<Longrightarrow> registry_inv (instances (snd (terminateInstance_socket n s)))"
  by (simp add: terminateInstance_socket_def Let_def registry_inv_delete instances_simps
      split: option.splits sum.splits)

lemma inv_updateInstanceSettings:
  "registry_inv (instances s) \<Longrightarrow> registry_inv (instances (updateInstanceSettings n0 n d c s))"
proof (cases "map_of (instances s) n0")
  case None
  assume "registry_inv (instances s)"
  with None show ?thesis by (simp add: updateInstanceSettings_def instances_simps)
next
  case (Some i)
  assume inv: "registry_inv (instances s)"
  from registry_inv_lookup [OF inv Some] have "inst_ok (i\<lparr>name := n, workingDir := d, command := c\<rparr>)"
    by (simp add: inst_ok_def)
  with inv Some show ?thesis
    by (simp add: updateInstanceSettings_def Let_def registry_inv_update registry_inv_delete
        instances_simps)
qed

lemma inv_appendInstanceLog:
  "registry_inv (instances s) \<Longrightarrow> registry_inv (instances (appendInstanceLog n t s))"
  by (simp add: appendInstanceLog_def Let_def instances_simps)

lemma inv_step: "registry_inv (instances s) \<Longrightarrow> registry_inv (instances (step e c s))"
  by (cases c)
    (simp_all add: inv_tick inv_post_instances inv_startServer inv_stopServer inv_restartServer
      inv_terminateInstance inv_terminateInstance_socket inv_updateInstanceSettings
      inv_appendInstanceLog)

lemma inv_run: "registry_inv (instances s) \<Longrightarrow> registry_inv (instances (run cs s))"
  by (induction cs arbitrary: s) (auto simp: inv_step)

lemma inv_startup: "registry_inv (instances (startup e rules dir loaded))"
  by (simp add: startup_def registry_inv_initial_check instances_simps)

text \<open>
  Claim C1. For every instance in the registry, \<open>pid\<close> is non-null if and only if \<open>status\<close>
  is \<open>running\<close>, after every lifecycle operation (register, start, stop, restart and
  terminate, in both declarations of \<open>terminateInstance\<close>; also the settings update and
  the capture of output) and after every reconciliation tick: the invariant holds in every
  state that a sequence of calls reaches from the state the program starts in, whatever
  \<open>instances.json\<close> held and whatever the operating system answers to each call.
\<close>

theorem pid_iff_running: "registry_inv (instances (run cs (startup e rules dir loaded)))"
  by (simp add: inv_run inv_startup)

theorem pid_iff_running_witness:
  "instances (run [(env0, Start ''alpha''), (env_dead, Tick)] s_alpha)
     = [(''alpha'', alpha)] \<and>
   registry_inv (instances (run [(env0, Start ''alpha''), (env_dead, Tick)] s_alpha))"
proof -
  have "instances (run [(env0, Start ''alpha''), (env_dead, Tick)] s_alpha) = [(''alpha'', alpha)]"
    by code_simp
  moreover have "registry_inv (instances (run [(env0, Start ''alpha''), (env_dead, Tick)] s_alpha))"
    unfolding s_alpha_def by (rule pid_iff_running)
  ultimately show ?thesis by simp
qed

section \<open>Reconciliation Loop: one tick\<close>

lemma snd_reconcile_loop:
  "snd (reconcile_loop e reg changed) = (changed \<or> list_ex (\<lambda>(k, i). snd (reconcile_instance e i)) reg)"
proof (induction reg arbitrary: changed)
  case Nil
  show ?case by simp
next
  case (Cons a reg)
  obtain k i where a: "a = (k, i)" by (cases a)
  show ?case
    by (simp add: a case_prod_beta Let_def Cons.IH)
qed

lemma fst_reconcile_loop_map:
  "fst (reconcile_loop e reg changed) = map (\<lambda>(k, i). (k, fst (reconcile_instance e i))) reg"
proof (induction reg arbitrary: changed)
  case Nil
  show ?case by simp
next
  case (Cons a reg)
  obtain k i where a: "a = (k, i)" by (cases a)
  show ?case
    by (simp add: a case_prod_beta Let_def Cons.IH)
qed

lemma reconcile_instance_unchanged:
  "\<not> snd (reconcile_instance e i) \<Longrightarrow> fst (reconcile_instance e i) = i"
  by (simp add: reconcile_instance_def Let_def split: if_splits)

lemma reconcile_loop_unchanged:
  "\<not> snd (reconcile_loop e reg False) \<Longrightarrow> fst (reconcile_loop e reg False) = reg"
proof -
  assume "\<not> snd (reconcile_loop e reg False)"
  then have no: "\<And>x. x \<in> set reg \<Longrightarrow> \<not> snd (reconcile_instance e (snd x))"
    by (simp add: snd_reconcile_loop list_ex_iff case_prod_beta)
  have "map (\<lambda>x. (fst x, fst (reconcile_instance e (snd x)))) reg = map (\<lambda>x. x) reg"
  proof (rule map_cong)
    show "reg = reg" by simp
  next
    fix x
    assume "x \<in> set reg"
    from no [OF this] have "fst (reconcile_instance e (snd x)) = snd x"
      by (rule reconcile_instance_unchanged)
    then show "(fst x, fst (reconcile_instance e (snd x))) = x" by simp
  qed
  then show ?thesis by (simp add: fst_reconcile_loop_map case_prod_unfold)
qed

lemma reconcile_instance_dead:
  "status i = ''running'' \<Longrightarrow> (\<forall>p. pid i = Some p \<longrightarrow> \<not> isPidRunning e p) \<Longrightarrow>
     reconcile_instance e i = (i\<lparr>status := ''stopped'', pid := None\<rparr>, True)"
  by (cases "pid i") (simp_all add: reconcile_instance_def pid_and_running_def Let_def)

lemma tick_instances: "instances (tick e s) = fst (reconcile_loop e (instances s) False)"
  by (simp add: tick_def Let_def case_prod_beta saveInstances_def emit_def)

lemma tick_changed:
  "snd (reconcile_loop e (instances s) False) \<Longrightarrow>
     saves (tick e s) = saves s + 1 \<and> disk (tick e s) = instances (tick e s) \<and>
     emitted (tick e s) = emitted s @ [InstancesStatus (instances (tick e s))]"
  by (simp add: tick_def Let_def case_prod_beta saveInstances_def emit_def)

lemma tick_unchanged:
  "\<not> snd (reconcile_loop e (instances s) False) \<Longrightarrow> tick e s = s"
  using reconcile_loop_unchanged [of e "instances s"]
  by (simp add: tick_def Let_def case_prod_beta)

lemma tick_lookup:
  "map_of (instances (tick e s)) k = map_option (\<lambda>i. fst (reconcile_instance e i)) (map_of (instances s) k)"
  by (simp add: tick_instances fst_reconcile_loop_map map_of_map)

text \<open>
  Claim C8. In one reconciliation tick, every instance of the registry whose status is
  \<open>running\<close> and whose pid the zero-signal probe does not find (or that has no pid to
  probe) becomes \<open>stopped\<close> with a null pid; and if the registry changed in that tick, it
  was written to disk exactly once and exactly one \<open>instancesStatus\<close> notification was
  emitted, carrying the whole registry, however many instances changed.
\<close>

theorem tick_corrects:
  "(\<forall>k i. map_of (instances s) k = Some i \<and> status i = ''running'' \<and>
           (\<forall>p. pid i = Some p \<longrightarrow> \<not> isPidRunning e p) \<longrightarrow>
        map_of (instances (tick e s)) k = Some (i\<lparr>status := ''stopped'', pid := None\<rparr>)) \<and>
   (instances (tick e s) \<noteq> instances s \<longrightarrow>
        saves (tick e s) = saves s + 1 \<and> disk (tick e s) = instances (tick e s) \<and>
        emitted (tick e s) = emitted s @ [InstancesStatus (instances (tick e s))])"
proof (intro conjI allI impI)
  fix k i
  assume h: "map_of (instances s) k = Some i \<and> status i = ''running'' \<and>
           (\<forall>p. pid i = Some p \<longrightarrow> \<not> isPidRunning e p)"
  then have "reconcile_instance e i = (i\<lparr>status := ''stopped'', pid := None\<rparr>, True)"
    by (simp add: reconcile_instance_dead)
  with h show "map_of (instances (tick e s)) k = Some (i\<lparr>status := ''stopped'', pid := None\<rparr>)"
    by (simp add: tick_lookup)
next
  assume "instances (tick e s) \<noteq> instances s"
  then have "snd (reconcile_loop e (instances s) False)"
    using tick_unchanged [of e s] by (cases "snd (reconcile_loop e (instances s) False)") simp_all
  then show "saves (tick e s) = saves s + 1" "disk (tick e s) = instances (tick e s)"
    "emitted (tick e s) = emitted s @ [InstancesStatus (instances (tick e s))]"
    using tick_changed [of e s] by simp_all
qed

theorem tick_corrects_witness:
  "map_of (instances (tick env_dead s_two)) ''a'' = Some (inst_a\<lparr>status := ''stopped'', pid := None\<rparr>) \<and>
   map_of (instances (tick env_dead s_two)) ''b'' = Some (inst_b\<lparr>status := ''stopped'', pid := None\<rparr>) \<and>
   saves (tick env_dead s_two) = saves s_two + 1 \<and>
   disk (tick env_dead s_two) = instances (tick env_dead s_two) \<and>
   emitted (tick env_dead s_two) = emitted s_two @ [InstancesStatus (instances (tick env_dead s_two))]"
proof -
  have a: "map_of (instances s_two) ''a'' = Some inst_a \<and> status inst_a = ''running'' \<and>
           (\<forall>p. pid inst_a = Some p \<longrightarrow> \<not> isPidRunning env_dead p)"
    by (simp add: s_two_def startup_def saveInstances_def initial_instance_def pid_and_running_def
        env_live_def env_dead_def env0_def inst_a_def inst_b_def)
  have b: "map_of (instances s_two) ''b'' = Some inst_b \<and> status inst_b = ''running'' \<and>
           (\<forall>p. pid inst_b = Some p \<longrightarrow> \<not> isPidRunning env_dead p)"
    by (simp add: s_two_def startup_def saveInstances_def initial_instance_def pid_and_running_def
        env_live_def env_dead_def env0_def inst_a_def inst_b_def)
  have c: "instances (tick env_dead s_two) \<noteq> instances s_two"
    by code_simp
  note t = tick_corrects [of s_two env_dead]
  from t a have "map_of (instances (tick env_dead s_two)) ''a'' = Some (inst_a\<lparr>status := ''stopped'', pid := None\<rparr>)"
    by blast
  moreover from t b have "map_of (instances (tick env_dead s_two)) ''b'' = Some (inst_b\<lparr>status := ''stopped'', pid := None\<rparr>)"
    by blast
  moreover from t c have "saves (tick env_dead s_two) = saves s_two + 1 \<and>
   disk (tick env_dead s_two) = instances (tick env_dead s_two) \<and>
   emitted (tick env_dead s_two) = emitted s_two @ [InstancesStatus (instances (tick env_dead s_two))]"
    by blast
  ultimately show ?thesis by simp
qed


section \<open>Log Buffer: append and trim\<close>

text \<open>
  What the split gives: no piece holds a line feed, and for a chunk without carriage
  returns the pieces joined by line feeds are the chunk again.
\<close>

lemma set_strip_cr: "set (strip_cr cur) \<subseteq> set cur"
  by (cases cur) auto

lemma split_lines_no_line_feed:
  "l \<in> set (split_lines chunk cur) \<Longrightarrow> CHR 0x0A \<notin> set cur \<Longrightarrow> CHR 0x0A \<notin> set l"
proof (induction chunk arbitrary: cur)
  case Nil
  then show ?case by simp
next
  case (Cons c cs)
  show ?case
  proof (cases "c = CHR 0x0A")
    case True
    with Cons.prems(1) have "l = rev (strip_cr cur) \<or> l \<in> set (split_lines cs [])" by simp
    then show ?thesis
    proof
      assume "l = rev (strip_cr cur)"
      with Cons.prems(2) set_strip_cr [of cur] show ?thesis by auto
    next
      assume "l \<in> set (split_lines cs [])"
      from Cons.IH [OF this] show ?thesis by simp
    qed
  next
    case False
    with Cons.prems(1) have "l \<in> set (split_lines cs (c # cur))" by simp
    from Cons.IH [OF this] False Cons.prems(2) show ?thesis by simp
  qed
qed

lemma split_lines_nonempty: "split_lines chunk cur \<noteq> []"
  by (induction chunk arbitrary: cur) simp_all

lemma join_Cons: "xs \<noteq> [] \<Longrightarrow> join sep (x # xs) = x @ sep @ join sep xs"
  by (cases xs) simp_all

lemma strip_cr_id: "CHR 0x0D \<notin> set cur \<Longrightarrow> strip_cr cur = cur"
  by (cases cur) auto

lemma join_split_lines:
  "CHR 0x0D \<notin> set chunk \<Longrightarrow> CHR 0x0D \<notin> set cur \<Longrightarrow>
     join [CHR 0x0A] (split_lines chunk cur) = rev cur @ chunk"
proof (induction chunk arbitrary: cur)
  case Nil
  then show ?case by simp
next
  case (Cons c cs)
  show ?case
  proof (cases "c = CHR 0x0A")
    case True
    from Cons.prems have "join [CHR 0x0A] (split_lines cs []) = cs"
      using Cons.IH [of "[]"] by simp
    with True Cons.prems(2) show ?thesis
      by (simp add: join_Cons split_lines_nonempty strip_cr_id)
  next
    case False
    from Cons.prems have "join [CHR 0x0A] (split_lines cs (c # cur)) = rev (c # cur) @ cs"
      using Cons.IH [of "c # cur"] by simp
    with False show ?thesis by simp
  qed
qed


lemma push_lines_filter: "push_lines buf ls = buf @ filter (\<lambda>l. trim l \<noteq> []) ls"
  by (induction ls arbitrary: buf) simp_all

lemma shift_loop_drop: "shift_loop buf = drop (length buf - 400) buf"
proof (induction buf rule: shift_loop.induct)
  case (1 buf)
  show ?case
  proof (cases "length buf > 400")
    case False
    then show ?thesis by (subst shift_loop.simps) simp
  next
    case True
    then obtain x xs where buf: "buf = x # xs" by (cases buf) auto
    from True have "shift_loop buf = shift_loop (tl buf)" by (subst shift_loop.simps) simp
    also have "\<dots> = drop (length (tl buf) - 400) (tl buf)" using "1.IH" True by simp
    also have "\<dots> = drop (length buf - 400) buf"
      using True buf by (simp add: Suc_diff_le drop_Cons')
    finally show ?thesis .
  qed
qed

lemma log_buffer_appendInstanceLog:
  "log_buffer (appendInstanceLog nm txt s) nm =
     drop (length (log_buffer s nm @ kept_lines txt) - 400) (log_buffer s nm @ kept_lines txt)"
  by (simp add: appendInstanceLog_def log_buffer_def emit_def update_conv' push_lines_filter
      shift_loop_drop kept_lines_def Let_def)

text \<open>
  Claim C9, as amended. For every instance and every appended chunk, \<open>appendInstanceLog\<close>
  splits the chunk on line boundaries, discards the lines that are empty or hold only
  white space, appends the remaining lines in order, and trims from the front until at
  most 400 lines remain: the buffer then holds the last 400 of the lines kept so far, never
  more than 400, and appending one kept line to a full buffer drops exactly the oldest.
\<close>

theorem appendInstanceLog_bounded:
  "log_buffer (appendInstanceLog nm txt s) nm =
     drop (length (log_buffer s nm @ kept_lines txt) - 400) (log_buffer s nm @ kept_lines txt) \<and>
   length (log_buffer (appendInstanceLog nm txt s) nm) \<le> 400 \<and>
   (length (log_buffer s nm) = 400 \<and> kept_lines txt = [l] \<longrightarrow>
      log_buffer (appendInstanceLog nm txt s) nm = tl (log_buffer s nm) @ [l])"
proof (intro conjI impI)
  show "log_buffer (appendInstanceLog nm txt s) nm =
     drop (length (log_buffer s nm @ kept_lines txt) - 400) (log_buffer s nm @ kept_lines txt)"
    by (rule log_buffer_appendInstanceLog)
  show "length (log_buffer (appendInstanceLog nm txt s) nm) \<le> 400"
    by (simp add: log_buffer_appendInstanceLog)
  assume h: "length (log_buffer s nm) = 400 \<and> kept_lines txt = [l]"
  then obtain x xs where b: "log_buffer s nm = x # xs" by (cases "log_buffer s nm") auto
  with h show "log_buffer (appendInstanceLog nm txt s) nm = tl (log_buffer s nm) @ [l]"
    by (simp add: log_buffer_appendInstanceLog)
qed

theorem appendInstanceLog_bounded_witness:
  "log_buffer s_full ''alpha'' = ''oldest'' # replicate 399 ''x'' \<and>
   kept_lines (''newest'' @ [CHR 0x0A]) = [''newest''] \<and>
   log_buffer (appendInstanceLog ''alpha'' (''newest'' @ [CHR 0x0A]) s_full) ''alpha''
     = replicate 399 ''x'' @ [''newest''] \<and>
   length (log_buffer (appendInstanceLog ''alpha'' (''newest'' @ [CHR 0x0A]) s_full) ''alpha'') \<le> 400"
proof -
  have 1: "log_buffer s_full ''alpha'' = ''oldest'' # replicate 399 ''x''"
    by (simp add: s_full_def log_buffer_def)
  have 2: "kept_lines (''newest'' @ [CHR 0x0A]) = [''newest'']" by code_simp
  from 1 have 3: "length (log_buffer s_full ''alpha'') = 400" by simp
  from appendInstanceLog_bounded [of "''alpha''" "''newest'' @ [CHR 0x0A]" s_full "''newest''"] 1 2 3
  show ?thesis by simp
qed

text \<open>
  Claim C9 as stated fails: a line of two spaces is not empty, so the specification's
  append keeps it, and \<open>appendInstanceLog\<close> discards it.
\<close>

theorem blank_line_counterexample:
  "spec_kept_lines ''  '' = [''  ''] \<and> kept_lines ''  '' = [] \<and>
   spec_append (log_buffer s_alpha ''alpha'') ''  '' = [''  ''] \<and>
   log_buffer (appendInstanceLog ''alpha'' ''  '' s_alpha) ''alpha'' = []"
  by code_simp


section \<open>Lifecycle Orchestrator: stop\<close>

text \<open>
  The guards of \<open>stopServer\<close>: without a pid, or without a supervisor record for the pid
  that holds the process object, it throws and leaves the state as it was.
\<close>

lemma stopServer_not_running:
  "map_of (instances s) nm = Some i \<Longrightarrow> \<not> truthy (pid i) \<Longrightarrow>
     stopServer e nm s = (Inl (Error ''Instance not running''), s)"
  by (cases "pid i") (simp_all add: stopServer_def truthy_def)

lemma stopServer_untracked:
  "map_of (instances s) nm = Some i \<Longrightarrow> pid i = Some p \<Longrightarrow> p \<noteq> 0 \<Longrightarrow>
     find_by_pid (Some p) s = None \<Longrightarrow>
     stopServer e nm s = (Inl (Error ''Process info not found''), s)"
  by (simp add: stopServer_def)

text \<open>
  Claim C5, as amended. For every instance whose pid is set and tracked by a record of the
  Process Supervisor that holds the process object, and whose stdin takes the write,
  \<open>stopServer\<close> writes \<open>stop\<close> and a line feed to the process's stdin and waits: if the
  process exits before the timer fires it resolves, otherwise it sends \<open>SIGKILL\<close> and
  resolves; either way it has then set \<open>status\<close> to \<open>stopped\<close>, cleared \<open>pid\<close>, written the
  registry to disk and deleted the supervisor's record.
\<close>

theorem stopServer_tracked:
  assumes "map_of (instances s) nm = Some i" and "pid i = Some p" and "p \<noteq> 0"
    and "find_by_pid (Some p) s = Some found" and "info_proc found"
    and "stdin_write_throws e p = None"
  shows "fst (stopServer e nm s) = Inr () \<and>
    os_calls (snd (stopServer e nm s))
      = os_calls s @ StdinWrite p (''stop'' @ [CHR 0x0A])
          # (if exits_in_time e p then [] else [ProcKill p SIGKILL]) \<and>
    map_of (instances (snd (stopServer e nm s))) nm = Some (i\<lparr>status := ''stopped'', pid := None\<rparr>) \<and>
    disk (snd (stopServer e nm s)) = instances (snd (stopServer e nm s)) \<and>
    saves (snd (stopServer e nm s)) = saves s + 1 \<and>
    map_of (processes (snd (stopServer e nm s))) (info_id found) = None"
proof (cases "exits_in_time e p")
  case True
  with assms have "stopServer e nm s
      = (Inr (), cleanup nm i found (os_call (StdinWrite p (''stop'' @ [CHR 0x0A])) s))"
    by (simp add: stopServer_def)
  with True show ?thesis
    by (simp add: cleanup_def saveInstances_def os_call_def update_conv' delete_conv')
next
  case False
  with assms have "stopServer e nm s
      = (Inr (), cleanup nm i found
           (os_call (ProcKill p SIGKILL) (os_call (StdinWrite p (''stop'' @ [CHR 0x0A])) s)))"
    by (simp add: stopServer_def)
  with False show ?thesis
    by (simp add: cleanup_def saveInstances_def os_call_def update_conv' delete_conv')
qed

theorem stopServer_tracked_witness:
  "fst (stopServer env_slow ''alpha'' s_running) = Inr () \<and>
   os_calls (snd (stopServer env_slow ''alpha'' s_running))
     = os_calls s_running @ [StdinWrite 4242 (''stop'' @ [CHR 0x0A]), ProcKill 4242 SIGKILL] \<and>
   map_of (instances (snd (stopServer env_slow ''alpha'' s_running))) ''alpha'' = Some alpha \<and>
   disk (snd (stopServer env_slow ''alpha'' s_running)) = instances (snd (stopServer env_slow ''alpha'' s_running)) \<and>
   saves (snd (stopServer env_slow ''alpha'' s_running)) = saves s_running + 1 \<and>
   map_of (processes (snd (stopServer env_slow ''alpha'' s_running))) 1 = None"
proof -
  have 1: "map_of (instances s_running) ''alpha'' = Some alpha_running" by code_simp
  have 2: "pid alpha_running = Some 4242" by code_simp
  have 3: "(4242::int) \<noteq> 0" by simp
  have 4: "find_by_pid (Some 4242) s_running = Some handle1" by code_simp
  have 5: "info_proc handle1" by code_simp
  have 6: "stdin_write_throws env_slow 4242 = None" by code_simp
  have 7: "\<not> exits_in_time env_slow 4242" by code_simp
  have 8: "info_id handle1 = 1" by code_simp
  have 9: "alpha_running\<lparr>status := ''stopped'', pid := None\<rparr> = alpha" by code_simp
  from stopServer_tracked [OF 1 2 3 4 5 6] 7 8 9 show ?thesis by simp
qed

text \<open>
  Claim C5 as stated fails for a running instance that the supervisor does not track:
  \<open>stopServer\<close> throws before it writes anything, and the instance stays \<open>running\<close>.
\<close>

theorem stop_untracked_counterexample:
  "map_of (instances s_untracked) ''alpha'' = Some alpha_running \<and>
   status alpha_running = ''running'' \<and>
   stopServer env0 ''alpha'' s_untracked = (Inl (Error ''Process info not found''), s_untracked) \<and>
   os_calls s_untracked = []"
  by code_simp


section \<open>Where the program departs from the specification\<close>

text \<open>
  What \<open>startServer\<close> does for every instance whose resolved command the gate refuses, and
  for a name that is not in the registry.
\<close>

lemma startServer_not_found:
  "map_of (instances s) nm = None \<Longrightarrow> startServer e nm s = (Inl (Error ''Instance not found''), s)"
  by (simp add: startServer_def)

lemma spawnProcess_disabled:
  assumes "isCommandWithArgsDisabled (disabledCommands s) cmd args"
  shows "fst (spawnProcess e cmd args cwd s) = nextId s \<and>
    instances (snd (spawnProcess e cmd args cwd s)) = instances s \<and>
    filter is_Spawn (os_calls (snd (spawnProcess e cmd args cwd s))) = filter is_Spawn (os_calls s) \<and>
    map_of (processes (snd (spawnProcess e cmd args cwd s))) (nextId s)
      = Some (new_info (nextId s) cmd args False None
                [disabled_message cmd args, disabled_message cmd args])"
  using assms
  by (simp add: spawnProcess_def add_process_def appendError_def os_call_def Let_def
      update_conv' new_info_def is_Spawn_def)

lemma startServer_disabled:
  assumes "map_of (instances s) nm = Some i"
    and "split_on CHR '' '' (command i) [] = (cmd, args)"
    and "cmdToRun = (if pathExists e (path_join e (workingDir i) cmd)
                     then path_join e (workingDir i) cmd else cmd)"
    and "isCommandWithArgsDisabled (disabledCommands s) cmdToRun args"
  shows "fst (startServer e nm s) = Inl (start_failed nm) \<and>
    instances (snd (startServer e nm s)) = instances s \<and>
    filter is_Spawn (os_calls (snd (startServer e nm s))) = filter is_Spawn (os_calls s) \<and>
    checkErrors (nextId s) (snd (startServer e nm s))
      = [disabled_message cmdToRun args, disabled_message cmdToRun args]"
proof -
  obtain k s1 where sp: "spawnProcess e cmdToRun args (workingDir i) s = (k, s1)"
    by (cases "spawnProcess e cmdToRun args (workingDir i) s")
  from spawnProcess_disabled [OF assms(4), of e "workingDir i"] sp
  have k: "k = nextId s" and inst: "instances s1 = instances s"
    and calls: "filter is_Spawn (os_calls s1) = filter is_Spawn (os_calls s)"
    and rec: "map_of (processes s1) (nextId s)
      = Some (new_info (nextId s) cmdToRun args False None
                [disabled_message cmdToRun args, disabled_message cmdToRun args])"
    by simp_all
  from assms(1,2) assms(3) [symmetric] sp k rec
  have "startServer e nm s = (Inl (start_failed nm), s1)"
    by (simp add: startServer_def Let_def new_info_def)
  with inst calls rec show ?thesis
    by (simp add: checkErrors_def new_info_def)
qed


text \<open>
  Claim C2, at a failing input. The command \<open>rm -rf world\<close> of \<open>danger\<close> matches the
  denylist. \<open>startServer\<close> fails, leaves the registry as it was and spawns nothing, and the
  record made for the refused attempt has no pid; but the record holds the refusal message
  twice, not once: \<open>spawnProcess\<close> creates it with \<open>errors: [errorMsg]\<close> and then calls
  \<open>appendError\<close>, which pushes the same message again.
\<close>

theorem start_denied_two_errors:
  "isCommandWithArgsDisabled (disabledCommands s_denied) ''rm'' [''-rf'', ''world''] \<and>
   fst (startServer env0 ''danger'' s_denied) = Inl (start_failed ''danger'') \<and>
   instances (snd (startServer env0 ''danger'' s_denied)) = instances s_denied \<and>
   filter is_Spawn (os_calls (snd (startServer env0 ''danger'' s_denied))) = [] \<and>
   map_option info_pid (map_of (processes (snd (startServer env0 ''danger'' s_denied))) 1) = Some None \<and>
   checkErrors 1 (snd (startServer env0 ''danger'' s_denied))
     = [disabled_message ''rm'' [''-rf'', ''world''], disabled_message ''rm'' [''-rf'', ''world'']]"
  by code_simp

text \<open>
  Claim C3, at a failing input. \<open>alpha\<close> is registered and stopped, and its Log Buffer holds
  one line. \<open>terminateInstance\<close>, in the declaration that a call reaches, throws the
  \<open>ReferenceError\<close> of reading \<open>processes\<close> before it changes anything: the entry stays in
  the registry, the buffer stays, the logs route still returns its line, and a later start
  of that name succeeds.
\<close>

theorem terminate_removes_nothing:
  "map_of (instances s_quiet) ''alpha'' = Some alpha \<and>
   get_logs s_quiet ''alpha'' = [''hello''] \<and>
   terminateInstance_socket ''alpha'' s_quiet
     = (Inl (ReferenceError ''processes is not defined''), s_quiet) \<and>
   map_of (instances (snd (terminateInstance_socket ''alpha'' s_quiet))) ''alpha'' = Some alpha \<and>
   get_logs (snd (terminateInstance_socket ''alpha'' s_quiet)) ''alpha'' = [''hello''] \<and>
   fst (startServer env0 ''alpha'' (snd (terminateInstance_socket ''alpha'' s_quiet))) = Inr 4242"
  by code_simp

text \<open>
  Claim C7, at a failing input. The settings update renames \<open>alpha\<close> to \<open>beta\<close> in memory
  and does not call \<open>saveInstances\<close>: the file still holds \<open>alpha\<close>.
\<close>

theorem update_settings_not_saved:
  "instances (updateInstanceSettings ''alpha'' ''beta'' ''/srv/beta'' ''run.sh'' s_alpha)
     = [(''beta'', alpha\<lparr>name := ''beta'', workingDir := ''/srv/beta''\<rparr>)] \<and>
   disk (updateInstanceSettings ''alpha'' ''beta'' ''/srv/beta'' ''run.sh'' s_alpha)
     = [(''alpha'', alpha)] \<and>
   saves (updateInstanceSettings ''alpha'' ''beta'' ''/srv/beta'' ''run.sh'' s_alpha) = saves s_alpha"
  by code_simp

text \<open>
  Claim C10, at a failing input. \<open>alpha\<close> runs with pid 4242 and the supervisor tracks
  that process. \<open>startServer\<close> of the supervisor-based \<open>server.js\<close> does not fail: it
  spawns a second process and overwrites the pid in the registry.
\<close>

theorem start_running_spawns_again:
  "map_of (instances s_running) ''alpha'' = Some alpha_running \<and>
   map_option info_pid (find_by_pid (Some 4242) s_running) = Some (Some 4242) \<and>
   fst (startServer env_next ''alpha'' s_running) = Inr 4343 \<and>
   map_of (instances (snd (startServer env_next ''alpha'' s_running))) ''alpha''
     = Some (alpha_running\<lparr>pid := Some 4343\<rparr>) \<and>
   os_calls (snd (startServer env_next ''alpha'' s_running))
     = os_calls s_running @ [Spawn ''run.sh'' [] (Some ''/srv/alpha'')]"
  by code_simp


section \<open>Lifecycle Orchestrator: restart\<close>















end
